theory Spec2Isabelle
  imports Main "HOL-Library.Sublist" "HOL-Library.Multiset"
begin

section \<open>JavaScript values\<close>

text \<open>
  The stream callbacks of \<^verbatim>\<open>src/pages/chat.tsx\<close> receive their events typed
  \<^verbatim>\<open>any\<close>, so an event is an arbitrary JSON value. Numbers are kept to the integers
  and NaN; an object is its property table.
\<close>

datatype jsval =
    JUndefined
  | JNull
  | JBool bool
  | JNum int
  | JNaN
  | JStr string
  | JArr "jsval list"
  | JObj "(string \<times> jsval) list"

datatype js_error = TypeError

text \<open>The test of \<^verbatim>\<open>if (v)\<close>: undefined, null, false, 0, NaN and the empty string are falsy.\<close>

fun truthy :: "jsval \<Rightarrow> bool" where
  "truthy JUndefined = False"
| "truthy JNull = False"
| "truthy (JBool b) = b"
| "truthy (JNum n) = (n \<noteq> 0)"
| "truthy JNaN = False"
| "truthy (JStr s) = (s \<noteq> [])"
| "truthy (JArr xs) = True"
| "truthy (JObj kvs) = True"

text \<open>
  \<^verbatim>\<open>message.k\<close> for a data property name \<open>k\<close> (none of the names read by the code is
  a built-in of String, Number, Boolean or Array): reading a property of undefined or null
  raises a TypeError, an object yields the stored value or undefined, every other value
  yields undefined.
\<close>

fun get_prop :: "jsval \<Rightarrow> string \<Rightarrow> js_error + jsval" where
  "get_prop JUndefined k = Inl TypeError"
| "get_prop JNull k = Inl TypeError"
| "get_prop (JObj kvs) k = Inr (case map_of kvs k of None \<Rightarrow> JUndefined | Some v \<Rightarrow> v)"
| "get_prop v k = Inr JUndefined"

definition bind_err :: "'e + 'a \<Rightarrow> ('a \<Rightarrow> 'e + 'b) \<Rightarrow> 'e + 'b" where
  "bind_err r f = (case r of Inl e \<Rightarrow> Inl e | Inr x \<Rightarrow> f x)"

section \<open>The answer fold of \<^verbatim>\<open>onSuccess\<close>\<close>

text \<open>
  \<^verbatim>\<open>const ai_answer:any = {}\<close> is a dictionary from property names to values.
\<close>

type_synonym js_object = "string \<rightharpoonup> jsval"

text \<open>\<^verbatim>\<open>if (message.k) { ai_answer[k] = message.k }\<close>\<close>

definition assign_if_truthy :: "string \<Rightarrow> jsval \<Rightarrow> js_object \<Rightarrow> js_error + js_object" where
  "assign_if_truthy k message ai_answer =
     bind_err (get_prop message k)
       (\<lambda>v. Inr (if truthy v then ai_answer(k \<mapsto> v) else ai_answer))"

text \<open>\<^verbatim>\<open>if (message.k !== undefined) { ai_answer[k] = message.k }\<close>\<close>

definition assign_if_defined :: "string \<Rightarrow> jsval \<Rightarrow> js_object \<Rightarrow> js_error + js_object" where
  "assign_if_defined k message ai_answer =
     bind_err (get_prop message k)
       (\<lambda>v. Inr (if v \<noteq> JUndefined then ai_answer(k \<mapsto> v) else ai_answer))"

text \<open>The body of the \<^verbatim>\<open>data.forEach\<close> callback, statement by statement.\<close>

definition on_message :: "js_object \<Rightarrow> jsval \<Rightarrow> js_error + js_object" where
  "on_message ai_answer message =
     bind_err (assign_if_truthy ''answer'' message ai_answer) (\<lambda>a1.
     bind_err (assign_if_truthy ''formatted_data_for_visualization'' message a1) (\<lambda>a2.
     bind_err (assign_if_truthy ''recommended_visualization'' message a2) (\<lambda>a3.
     bind_err (assign_if_truthy ''sql_query'' message a3) (\<lambda>a4.
     bind_err (assign_if_defined ''sql_valid'' message a4) (\<lambda>a5.
     assign_if_truthy ''parsed_question'' message a5)))))"

text \<open>\<^verbatim>\<open>data.forEach(...)\<close>: an exception raised by the callback ends the loop.\<close>

fun forEach_messages :: "js_object \<Rightarrow> jsval list \<Rightarrow> js_error + js_object" where
  "forEach_messages ai_answer [] = Inr ai_answer"
| "forEach_messages ai_answer (message # data) =
     bind_err (on_message ai_answer message) (\<lambda>a. forEach_messages a data)"

text \<open>The draft that \<^verbatim>\<open>onSuccess\<close> holds after the loop, before \<^verbatim>\<open>model_used\<close> is stamped.\<close>

definition build_answer :: "jsval list \<Rightarrow> js_error + js_object" where
  "build_answer data = forEach_messages Map.empty data"

text \<open>What a reader of the result sees in field \<open>k\<close> (nothing when the fold raised).\<close>

definition draft_field :: "js_error + js_object \<Rightarrow> string \<Rightarrow> jsval option" where
  "draft_field r k = (case r of Inl e \<Rightarrow> None | Inr d \<Rightarrow> d k)"

subsection \<open>Vocabulary of the properties\<close>

definition draft_fields :: "string list" where
  "draft_fields = [''answer'', ''formatted_data_for_visualization'',
     ''recommended_visualization'', ''sql_query'', ''sql_valid'', ''parsed_question'']"

definition nullish :: "jsval \<Rightarrow> bool" where
  "nullish v = (v = JUndefined \<or> v = JNull)"

text \<open>The value an event holds in field \<open>k\<close>; undefined when the field is missing.\<close>

definition prop_of :: "jsval \<Rightarrow> string \<Rightarrow> jsval" where
  "prop_of message k = (case get_prop message k of Inl e \<Rightarrow> JUndefined | Inr v \<Rightarrow> v)"

text \<open>An event carries field \<open>k\<close> non-absent when the field is there, whatever its value.\<close>

definition present :: "string \<Rightarrow> jsval \<Rightarrow> bool" where
  "present k message = (k \<in> set draft_fields \<and> prop_of message k \<noteq> JUndefined)"

text \<open>
  An event passes the guard of field \<open>k\<close>: a truthy value, or for \<^verbatim>\<open>sql_valid\<close> any
  value other than undefined.
\<close>

definition carries :: "string \<Rightarrow> jsval \<Rightarrow> bool" where
  "carries k message =
     (k \<in> set draft_fields \<and>
      (if k = ''sql_valid'' then prop_of message k \<noteq> JUndefined
       else truthy (prop_of message k)))"

text \<open>The value of the last event of the sequence that satisfies \<open>P k\<close>.\<close>

definition last_value :: "(string \<Rightarrow> jsval \<Rightarrow> bool) \<Rightarrow> string \<Rightarrow> jsval list \<Rightarrow> jsval option" where
  "last_value P k data = map_option (\<lambda>m. prop_of m k) (List.find (P k) (rev data))"

section \<open>Disjoint events and the union of their fields\<close>

text \<open>
  The fields of the events are pairwise disjoint, with respect to \<open>P\<close>, when no field
  is held by two events of the sequence.
\<close>

definition disjoint_fields :: "(string \<Rightarrow> jsval \<Rightarrow> bool) \<Rightarrow> jsval list \<Rightarrow> bool" where
  "disjoint_fields P data = list_all (\<lambda>k. length (filter (P k) data) \<le> 1) draft_fields"

text \<open>The union of the events' fields: each field with the value of the event that holds it.\<close>

definition union_of :: "(string \<Rightarrow> jsval \<Rightarrow> bool) \<Rightarrow> jsval list \<Rightarrow> js_object" where
  "union_of P data = (\<lambda>k. map_option (\<lambda>m. prop_of m k) (List.find (P k) data))"

text \<open>A conditional update of one key, the effect of one guarded assignment.\<close>

definition upd_when :: "bool \<Rightarrow> string \<Rightarrow> jsval \<Rightarrow> js_object \<Rightarrow> js_object" where
  "upd_when b k v d = (\<lambda>k'. if b \<and> k' = k then Some v else d k')"

section \<open>The chat page: \<^verbatim>\<open>src/pages/chat.tsx\<close>\<close>

text \<open>
  The three shapes of \<^verbatim>\<open>ConversationMessages\<close> that the page builds:
  \<^verbatim>\<open>{user_question}\<close>, \<^verbatim>\<open>{ai_answer}\<close> and \<^verbatim>\<open>{file_upload}\<close>.
\<close>

record file_upload_info =
  fileName :: string
  fileSize :: nat
  timestamp :: nat
  dataSourceId :: jsval
  tableName :: "string option"

datatype conversation_message =
    User_question string
  | Ai_answer js_object
  | File_upload file_upload_info

text \<open>The fields of a data set that the page reads.\<close>

record data_source =
  ds_id :: int
  ds_name :: "string option"
  table_name :: "string option"
  ds_type :: string

text \<open>
  The state the page reads and writes: its own \<^verbatim>\<open>useState\<close> cells, the cells of
  \<^verbatim>\<open>dataSetStore\<close> and the two route parameters.
\<close>

record chat_state =
  question :: string
  datasetType :: "string option"
  messages :: "conversation_message list"
  processingMessages :: "jsval list"
  tables :: "string list"
  dataSets :: "data_source list option"
  selectedModel :: jsval
  data_source_id :: "string option"
  conversation_id :: "string option"

text \<open>\<^verbatim>\<open>onStreamData: (data) => { setProcessingMessages(data) }\<close>\<close>

definition onStreamData :: "jsval list \<Rightarrow> chat_state \<Rightarrow> chat_state" where
  "onStreamData data st = st\<lparr>processingMessages := data\<rparr>"

text \<open>
  \<^verbatim>\<open>onSuccess\<close>: the fold, then \<^verbatim>\<open>ai_answer["model_used"] = selectedModel\<close>, then the
  answer is appended to the messages by a functional update. \<^verbatim>\<open>selectedModel\<close> is a
  constant of the render that created the callback (line 27 of the page), so the callback
  stamps the value it captured, whatever the store holds when it runs; that value is the
  first argument. An exception of the fold leaves before any state is written.
\<close>

definition onSuccess :: "jsval \<Rightarrow> jsval list \<Rightarrow> chat_state \<Rightarrow> js_error + chat_state" where
  "onSuccess captured_selectedModel data st =
     bind_err (forEach_messages Map.empty data) (\<lambda>ai_answer.
       Inr (st\<lparr>messages := messages st @
              [Ai_answer (ai_answer(''model_used'' \<mapsto> captured_selectedModel))]\<rparr>))"

text \<open>
  \<^verbatim>\<open>askQuestion\<close> returns the new state and the request body handed to
  \<^verbatim>\<open>sendMessage\<close>. The body is the list of its properties in the order they are
  assigned. \<open>Number\<close> is JavaScript's conversion of a route parameter to a number.
\<close>

definition nonempty :: "string option \<Rightarrow> bool" where
  "nonempty p = (case p of None \<Rightarrow> False | Some s \<Rightarrow> s \<noteq> [])"

definition askQuestion ::
  "(string \<Rightarrow> jsval) \<Rightarrow> chat_state \<Rightarrow> chat_state \<times> (string \<times> jsval) list" where
  "askQuestion Number st =
     (let st' = st\<lparr>messages := messages st @ [User_question (question st)],
                    processingMessages := [],
                    question := []\<rparr>;
          requestBody =
            [(''question'', JStr (question st)),
             (''type'', JStr (if nonempty (datasetType st) then the (datasetType st)
                              else ''direct_chat'')),
             (''llm_model'', selectedModel st)]
            @ (if nonempty (data_source_id st)
               then [(''dataset_id'', Number (the (data_source_id st))),
                     (''selected_tables'', JArr (map JStr (tables st)))]
               else [])
            @ (if nonempty (conversation_id st)
               then [(''conversaction_id'', Number (the (conversation_id st)))]
               else [])
      in (st', requestBody))"

text \<open>
  The effect on \<^verbatim>\<open>[data_source_id, dataSets]\<close>; \<open>now\<close> is the value of
  \<^verbatim>\<open>new Date()\<close>.
\<close>

definition dataset_effect :: "(string \<Rightarrow> jsval) \<Rightarrow> nat \<Rightarrow> chat_state \<Rightarrow> chat_state" where
  "dataset_effect Number now st =
     (if nonempty (data_source_id st) \<and> dataSets st \<noteq> None then
        (case filter (\<lambda>dataSet. JNum (ds_id dataSet) = Number (the (data_source_id st)))
                (the (dataSets st)) of
           [] \<Rightarrow> st
         | dataSet # rest \<Rightarrow>
             (let st1 = st\<lparr>tables := [case table_name dataSet of None \<Rightarrow> [] | Some t \<Rightarrow> t],
                            datasetType := Some (ds_type dataSet)\<rparr>
              in if length (messages st) = 0 \<and> ds_type dataSet = ''spreadsheet''
                 then st1\<lparr>messages :=
                        [File_upload \<lparr>fileName = (if nonempty (ds_name dataSet)
                                                    then the (ds_name dataSet)
                                                    else ''Unknown file''),
                                       fileSize = 0,
                                       timestamp = now,
                                       dataSourceId = Number (the (data_source_id st)),
                                       tableName = table_name dataSet\<rparr>]\<rparr>
                 else st1))
      else st\<lparr>datasetType := Some ''direct_chat''\<rparr>)"

text \<open>
  Everything that can happen to the page state: the handlers and callbacks above, the
  text area's \<^verbatim>\<open>setQuestion\<close>, and the writes from outside the page (the store's
  \<^verbatim>\<open>setModel\<close> and data sets, a change of route), each followed by the effect it
  triggers. \<open>Op_onSuccess\<close> carries the selected model that the called closure
  captured. A callback that raises writes nothing.
\<close>

datatype chat_op =
    Op_setQuestion string
  | Op_askQuestion
  | Op_onStreamData "jsval list"
  | Op_onSuccess jsval "jsval list"
  | Op_setModel jsval
  | Op_setDataSets "data_source list" nat
  | Op_navigate "string option" "string option" nat

fun chat_step :: "(string \<Rightarrow> jsval) \<Rightarrow> chat_state \<Rightarrow> chat_op \<Rightarrow> chat_state" where
  "chat_step Number st (Op_setQuestion q) = st\<lparr>question := q\<rparr>"
| "chat_step Number st Op_askQuestion = fst (askQuestion Number st)"
| "chat_step Number st (Op_onStreamData data) = onStreamData data st"
| "chat_step Number st (Op_onSuccess captured data) =
     (case onSuccess captured data st of Inl e \<Rightarrow> st | Inr st' \<Rightarrow> st')"
| "chat_step Number st (Op_setModel v) = st\<lparr>selectedModel := v\<rparr>"
| "chat_step Number st (Op_setDataSets dss now) =
     dataset_effect Number now (st\<lparr>dataSets := Some dss\<rparr>)"
| "chat_step Number st (Op_navigate dsid cid now) =
     dataset_effect Number now (st\<lparr>data_source_id := dsid, conversation_id := cid\<rparr>)"

definition chat_run :: "(string \<Rightarrow> jsval) \<Rightarrow> chat_state \<Rightarrow> chat_op list \<Rightarrow> chat_state" where
  "chat_run Number st ops = foldl (chat_step Number) st ops"

section \<open>The stream hook\<close>

text \<open>
  Modelled from the spec: the hook \<^verbatim>\<open>useStreamChat\<close> of \<^verbatim>\<open>src/hooks/useChat\<close>, which
  is not among the sources. It owns the session counter and the events received so far.
  Sending a request starts a session: the counter is incremented, the new value is the
  session's identity, and the received events are reset to empty. An event or a terminal
  signal is accepted only from the session whose identity equals the counter, while that
  session is live; an accepted event is appended to the received events, which are handed
  to \<^verbatim>\<open>onStreamData\<close>; an accepted success signal hands them to \<^verbatim>\<open>onSuccess\<close>; a
  failure signal produces no answer. The spec has the selected model read at the moment of
  assembly, so the hook is taken to call the \<^verbatim>\<open>onSuccess\<close> of the page's current
  render, whose captured \<^verbatim>\<open>selectedModel\<close> is the value the store holds at that
  moment.
\<close>

record app_state =
  chat :: chat_state
  session_counter :: nat
  live :: bool
  streamData :: "jsval list"

datatype app_event =
    Submit
  | Stream_event nat jsval
  | Stream_success nat
  | Stream_failure nat
  | Other chat_op

definition accepts :: "app_state \<Rightarrow> nat \<Rightarrow> bool" where
  "accepts st sid = (sid = session_counter st \<and> live st)"

text \<open>
  Modelled from the spec: how the hook dispatches to the page. Submitting is
  \<^verbatim>\<open>askQuestion\<close> followed by the start of a session.
\<close>

fun app_step :: "(string \<Rightarrow> jsval) \<Rightarrow> app_state \<Rightarrow> app_event \<Rightarrow> app_state" where
  "app_step Number st Submit =
     st\<lparr>chat := chat_step Number (chat st) Op_askQuestion,
        session_counter := session_counter st + 1,
        live := True,
        streamData := []\<rparr>"
| "app_step Number st (Stream_event sid e) =
     (if accepts st sid
      then st\<lparr>streamData := streamData st @ [e],
              chat := chat_step Number (chat st) (Op_onStreamData (streamData st @ [e]))\<rparr>
      else st)"
| "app_step Number st (Stream_success sid) =
     (if accepts st sid
      then st\<lparr>live := False,
              chat := chat_step Number (chat st)
                        (Op_onSuccess (selectedModel (chat st)) (streamData st))\<rparr>
      else st)"
| "app_step Number st (Stream_failure sid) =
     (if accepts st sid then st\<lparr>live := False\<rparr> else st)"
| "app_step Number st (Other op) = st\<lparr>chat := chat_step Number (chat st) op\<rparr>"

definition app_run :: "(string \<Rightarrow> jsval) \<Rightarrow> app_state \<Rightarrow> app_event list \<Rightarrow> app_state" where
  "app_run Number st evs = foldl (app_step Number) st evs"

text \<open>The events that come from a session started no later than counter value \<open>c\<close>.\<close>

fun from_session_upto :: "nat \<Rightarrow> app_event \<Rightarrow> bool" where
  "from_session_upto c (Stream_event sid e) = (sid \<le> c)"
| "from_session_upto c (Stream_success sid) = (sid \<le> c)"
| "from_session_upto c (Stream_failure sid) = (sid \<le> c)"
| "from_session_upto c ev = False"

text \<open>The stage events of session \<open>c\<close> in a sequence of events, in arrival order.\<close>

fun session_events :: "nat \<Rightarrow> app_event list \<Rightarrow> jsval list" where
  "session_events c [] = []"
| "session_events c (Stream_event sid e # evs) =
     (if sid = c then e # session_events c evs else session_events c evs)"
| "session_events c (ev # evs) = session_events c evs"

text \<open>
  What can happen while session \<open>c\<close> streams, before its terminal signal and before
  the next submission: stage events of any session, terminal signals of other sessions,
  and the writes from outside the hook (typing, a model selection, data sets, a route).
\<close>

fun in_flight :: "nat \<Rightarrow> app_event \<Rightarrow> bool" where
  "in_flight c Submit = False"
| "in_flight c (Stream_event sid e) = True"
| "in_flight c (Stream_success sid) = (sid \<noteq> c)"
| "in_flight c (Stream_failure sid) = (sid \<noteq> c)"
| "in_flight c (Other Op_askQuestion) = False"
| "in_flight c (Other (Op_onStreamData data)) = False"
| "in_flight c (Other (Op_onSuccess captured data)) = False"
| "in_flight c (Other op) = True"

section \<open>The model selectors: \<^verbatim>\<open>ModelSelector.tsx\<close> and \<^verbatim>\<open>SelectDataset\<close>\<close>

record ModelInfo =
  name :: string
  display_name :: string
  description :: string
  platform :: string
  capability :: string
  best_for :: "string list"

text \<open>
  \<open>model\<close> is the store's \<^verbatim>\<open>selectedModel\<close>; the other two cells belong to the
  component.
\<close>

record selector_state =
  model :: jsval
  availableModels :: "ModelInfo list"
  loadingModels :: bool

definition setModel :: "string \<Rightarrow> selector_state \<Rightarrow> selector_state" where
  "setModel v st = st\<lparr>model := JStr v\<rparr>"

text \<open>The effect on \<^verbatim>\<open>[availableModels, model, setModel]\<close>, the same in both components.\<close>

definition default_model_effect :: "selector_state \<Rightarrow> selector_state" where
  "default_model_effect st =
     (if \<not> truthy (model st) \<and> length (availableModels st) > 0 then
        (case List.find (\<lambda>m. name m = ''gpt-4o-mini'') (availableModels st) of
           Some defaultModel \<Rightarrow> setModel (name defaultModel) st
         | None \<Rightarrow> st)
      else st)"

text \<open>The hardcoded lists of the two \<^verbatim>\<open>catch\<close> blocks.\<close>

definition fallback_ModelSelector :: "ModelInfo list" where
  "fallback_ModelSelector =
     [\<lparr>name = ''gpt-4o-mini'', display_name = ''GPT-4o Mini'',
       description = ''Fast and cost-effective'', platform = ''openai'',
       capability = ''fast'', best_for = []\<rparr>,
      \<lparr>name = ''gpt-4o'', display_name = ''GPT-4o'',
       description = ''Best all-around'', platform = ''openai'',
       capability = ''balanced'', best_for = []\<rparr>]"

definition fallback_SelectDataset :: "ModelInfo list" where
  "fallback_SelectDataset =
     [\<lparr>name = ''gpt-4o-mini'', display_name = ''GPT-4o Mini'',
       description = ''Fast and cost-effective'', platform = ''openai'',
       capability = ''fast'', best_for = []\<rparr>,
      \<lparr>name = ''gemma2-9b-it'', display_name = ''Gemma 2 9B'',
       description = ''Balanced model'', platform = ''groq'',
       capability = ''balanced'', best_for = []\<rparr>]"

text \<open>
  What \<^verbatim>\<open>await fetch(...)\<close> followed by \<^verbatim>\<open>await response.json()\<close> can give: an
  exception (no connection, a body that is not JSON), the JSON value null, or a record
  whose fields are typed as the catalog endpoint documents them, each possibly missing.
\<close>

record models_payload =
  models :: "ModelInfo list option"

record models_response =
  status_code :: "int option"
  resp_data :: "models_payload option"

datatype fetch_outcome =
    Fetch_throws
  | Json_null
  | Json_record models_response

text \<open>
  \<^verbatim>\<open>fetchModels\<close>, with the component's hardcoded list as parameter. Reading
  \<^verbatim>\<open>data.status_code\<close> of null raises inside the \<^verbatim>\<open>try\<close>, so null ends in the
  \<^verbatim>\<open>catch\<close> block like a failed fetch.
\<close>

definition fetchModels :: "ModelInfo list \<Rightarrow> fetch_outcome \<Rightarrow> selector_state \<Rightarrow> selector_state" where
  "fetchModels fallback outcome st =
     (case outcome of
        Fetch_throws \<Rightarrow> st\<lparr>availableModels := fallback, loadingModels := False\<rparr>
      | Json_null \<Rightarrow> st\<lparr>availableModels := fallback, loadingModels := False\<rparr>
      | Json_record r \<Rightarrow>
          (case (if status_code r = Some 200 then resp_data r else None) of
             None \<Rightarrow> st\<lparr>loadingModels := False\<rparr>
           | Some p \<Rightarrow>
               (case models p of
                  None \<Rightarrow> st\<lparr>loadingModels := False\<rparr>
                | Some ms \<Rightarrow> st\<lparr>availableModels := ms, loadingModels := False\<rparr>)))"

text \<open>
  What happens to a selector: it is mounted (fresh component cells), a catalog load ends,
  the user picks an option of the \<^verbatim>\<open>select\<close> (the value \<^verbatim>\<open>""\<close> is the option
  "Select LLM Model"). The default-model effect runs after each.
\<close>

datatype selector_event =
    Mount
  | Fetch_done fetch_outcome
  | User_select string

fun selector_step :: "ModelInfo list \<Rightarrow> selector_state \<Rightarrow> selector_event \<Rightarrow> selector_state" where
  "selector_step fallback st Mount =
     default_model_effect (st\<lparr>availableModels := [], loadingModels := True\<rparr>)"
| "selector_step fallback st (Fetch_done outcome) =
     default_model_effect (fetchModels fallback outcome st)"
| "selector_step fallback st (User_select v) =
     default_model_effect (setModel v st)"

definition selector_run :: "ModelInfo list \<Rightarrow> selector_state \<Rightarrow> selector_event list \<Rightarrow> selector_state" where
  "selector_run fallback st evs = foldl (selector_step fallback) st evs"

fun is_user_select :: "selector_event \<Rightarrow> bool" where
  "is_user_select (User_select v) = True"
| "is_user_select ev = False"

section \<open>Properties\<close>

lemma bind_err_Inr [simp]: "bind_err (Inr x) f = f x"
  by (simp add: bind_err_def)

lemma bind_err_Inl [simp]: "bind_err (Inl e) f = Inl e"
  by (simp add: bind_err_def)

lemma get_prop_nullish: "nullish m \<Longrightarrow> get_prop m k = Inl TypeError"
  by (auto simp: nullish_def)

lemma get_prop_ok: "\<not> nullish m \<Longrightarrow> get_prop m k = Inr (prop_of m k)"
  by (cases m) (simp_all add: nullish_def prop_of_def)

lemma assign_if_truthy_upd:
  "\<not> nullish m \<Longrightarrow>
   assign_if_truthy k m d = Inr (upd_when (truthy (prop_of m k)) k (prop_of m k) d)"
  by (auto simp: assign_if_truthy_def get_prop_ok upd_when_def fun_eq_iff)

lemma assign_if_defined_upd:
  "\<not> nullish m \<Longrightarrow>
   assign_if_defined k m d = Inr (upd_when (prop_of m k \<noteq> JUndefined) k (prop_of m k) d)"
  by (auto simp: assign_if_defined_def get_prop_ok upd_when_def fun_eq_iff)

lemma on_message_nullish: "nullish m \<Longrightarrow> on_message d m = Inl TypeError"
  by (simp add: on_message_def assign_if_truthy_def get_prop_nullish)

lemma on_message_ok:
  assumes "\<not> nullish m"
  shows "on_message d m = Inr (\<lambda>k. if carries k m then Some (prop_of m k) else d k)"
proof -
  have "on_message d m = Inr
     (upd_when (truthy (prop_of m ''parsed_question'')) ''parsed_question'' (prop_of m ''parsed_question'')
     (upd_when (prop_of m ''sql_valid'' \<noteq> JUndefined) ''sql_valid'' (prop_of m ''sql_valid'')
     (upd_when (truthy (prop_of m ''sql_query'')) ''sql_query'' (prop_of m ''sql_query'')
     (upd_when (truthy (prop_of m ''recommended_visualization'')) ''recommended_visualization'' (prop_of m ''recommended_visualization'')
     (upd_when (truthy (prop_of m ''formatted_data_for_visualization'')) ''formatted_data_for_visualization'' (prop_of m ''formatted_data_for_visualization'')
     (upd_when (truthy (prop_of m ''answer'')) ''answer'' (prop_of m ''answer'') d))))))"
    using assms by (simp add: on_message_def assign_if_truthy_upd assign_if_defined_upd)
  also have "\<dots> = Inr (\<lambda>k. if carries k m then Some (prop_of m k) else d k)"
    by (auto simp: upd_when_def carries_def draft_fields_def fun_eq_iff)
  finally show ?thesis .
qed

lemma find_snoc:
  "List.find P (xs @ [x]) =
     (case List.find P xs of Some y \<Rightarrow> Some y | None \<Rightarrow> if P x then Some x else None)"
  by (induction xs) auto

lemma last_value_Nil: "last_value P k [] = None"
  by (simp add: last_value_def)

lemma last_value_Cons:
  "last_value P k (m # data) =
     (case last_value P k data of Some v \<Rightarrow> Some v
      | None \<Rightarrow> if P k m then Some (prop_of m k) else None)"
  by (simp add: last_value_def find_snoc split: option.splits)

lemma forEach_messages_char:
  "forEach_messages d data =
     (if list_ex nullish data then Inl TypeError
      else Inr (\<lambda>k. case last_value carries k data of Some v \<Rightarrow> Some v | None \<Rightarrow> d k))"
proof (induction data arbitrary: d)
  case Nil
  show ?case by (simp add: last_value_Nil)
next
  case (Cons m data)
  show ?case
  proof (cases "nullish m")
    case True
    then show ?thesis by (simp add: on_message_nullish)
  next
    case False
    then show ?thesis
      by (auto simp: on_message_ok Cons.IH last_value_Cons fun_eq_iff split: option.splits)
  qed
qed

lemma build_answer_char:
  "build_answer data =
     (if list_ex nullish data then Inl TypeError else Inr (\<lambda>k. last_value carries k data))"
  by (auto simp: build_answer_def forEach_messages_char fun_eq_iff split: option.splits)

lemma last_value_carries_outside:
  "k \<notin> set draft_fields \<Longrightarrow> last_value carries k data = None"
  by (simp add: last_value_def find_None_iff carries_def)

subsection \<open>Falsy values\<close>

text \<open>
  Claim C10. In the answer fold a field that is present in an event but holds a falsy
  value is treated as absent: an event whose \<^verbatim>\<open>answer\<close>,
  \<^verbatim>\<open>formatted_data_for_visualization\<close>, \<^verbatim>\<open>recommended_visualization\<close>,
  \<^verbatim>\<open>sql_query\<close> or \<^verbatim>\<open>parsed_question\<close> is falsy leaves the value accumulated for
  that field as it was. Only \<^verbatim>\<open>sql_valid\<close> is tested against undefined, so an event
  with \<^verbatim>\<open>sql_valid\<close> false writes false over whatever was accumulated, a previous
  true included.
\<close>

theorem falsy_field_is_skipped:
  assumes "\<not> nullish m"
  shows "\<exists>d'. on_message d m = Inr d' \<and>
     (\<forall>k \<in> {''answer'', ''formatted_data_for_visualization'', ''recommended_visualization'',
              ''sql_query'', ''parsed_question''}.
        \<not> truthy (prop_of m k) \<longrightarrow> d' k = d k) \<and>
     (prop_of m ''sql_valid'' = JBool False \<longrightarrow> d' ''sql_valid'' = Some (JBool False))"
  using assms by (simp add: on_message_ok carries_def draft_fields_def)

theorem falsy_field_is_skipped_witness:
  "\<exists>d'. on_message [''answer'' \<mapsto> JStr ''kept'', ''sql_valid'' \<mapsto> JBool True]
            (JObj [(''answer'', JStr ''''), (''sql_valid'', JBool False)]) = Inr d' \<and>
        d' ''answer'' = Some (JStr ''kept'') \<and> d' ''sql_valid'' = Some (JBool False)"
  using falsy_field_is_skipped
    [of "JObj [(''answer'', JStr ''''), (''sql_valid'', JBool False)]"
        "[''answer'' \<mapsto> JStr ''kept'', ''sql_valid'' \<mapsto> JBool True]"]
  by (auto simp: nullish_def prop_of_def)

subsection \<open>Last write wins\<close>

text \<open>
  Claim C1 as stated, at the events \<^verbatim>\<open>{answer: "first"}\<close>, \<^verbatim>\<open>{answer: ""}\<close>: the last
  event that holds \<^verbatim>\<open>answer\<close> non-absent holds the empty string, and the draft holds
  \<^verbatim>\<open>"first"\<close>.
\<close>

theorem last_present_counterexample:
  "draft_field (build_answer [JObj [(''answer'', JStr ''first'')], JObj [(''answer'', JStr '''')]]) ''answer''
     \<noteq> last_value present ''answer'' [JObj [(''answer'', JStr ''first'')], JObj [(''answer'', JStr '''')]]"
  by (simp add: draft_field_def build_answer_char nullish_def last_value_def carries_def
      present_def prop_of_def draft_fields_def)


lemma on_message_untouched:
  assumes "\<not> nullish m" and "\<not> present k m"
  shows "\<exists>d'. on_message d m = Inr d' \<and> d' k = d k"
  using assms by (auto simp: on_message_ok carries_def present_def)

text \<open>
  Claim C1, amended. For every sequence of events none of which is null or undefined, each
  field of the draft holds the value of the last event that passed the field's guard (a
  truthy value; for \<^verbatim>\<open>sql_valid\<close> any value other than undefined), and is absent when
  no event did. An event that omits a field leaves the accumulated value untouched, and a
  field once present is never reset to absent.
\<close>

theorem draft_holds_last_carried:
  assumes "\<not> list_ex nullish data"
  shows "\<exists>d. build_answer data = Inr d \<and>
           (\<forall>k \<in> set draft_fields. d k = last_value carries k data) \<and>
           (\<forall>m d0 k. \<not> nullish m \<and> \<not> present k m \<longrightarrow>
              (\<exists>d'. on_message d0 m = Inr d' \<and> d' k = d0 k)) \<and>
           (\<forall>d0. \<exists>d'. forEach_messages d0 data = Inr d' \<and>
              (\<forall>k. d0 k \<noteq> None \<longrightarrow> d' k \<noteq> None))"
proof -
  have 1: "build_answer data = Inr (\<lambda>k. last_value carries k data)"
    using assms by (simp add: build_answer_char)
  have 2: "\<forall>m d0 k. \<not> nullish m \<and> \<not> present k m \<longrightarrow>
              (\<exists>d'. on_message d0 m = Inr d' \<and> d' k = d0 k)"
    using on_message_untouched by blast
  have 3: "\<forall>d0. \<exists>d'. forEach_messages d0 data = Inr d' \<and>
              (\<forall>k. d0 k \<noteq> None \<longrightarrow> d' k \<noteq> None)"
    using assms by (auto simp: forEach_messages_char split: option.splits)
  show ?thesis using 1 2 3 by simp
qed

theorem draft_holds_last_carried_witness:
  "\<not> list_ex nullish [JObj [(''answer'', JStr ''first'')], JObj [(''answer'', JStr '''')]] \<and>
   (\<exists>d. build_answer [JObj [(''answer'', JStr ''first'')], JObj [(''answer'', JStr '''')]] = Inr d \<and>
        d ''answer'' = Some (JStr ''first''))"
  using draft_holds_last_carried
    [of "[JObj [(''answer'', JStr ''first'')], JObj [(''answer'', JStr '''')]]"]
  by (auto simp: nullish_def last_value_def carries_def prop_of_def draft_fields_def)

subsection \<open>Malformed events\<close>

text \<open>
  Claim C6 as stated, at an event sequence that holds null: reading \<^verbatim>\<open>message.answer\<close>
  of null raises a TypeError, and the fold does not complete.
\<close>

theorem fold_raises_on_null_counterexample:
  "build_answer [JObj [(''answer'', JStr ''first'')], JNull] = Inl TypeError"
  by (simp add: build_answer_char nullish_def)

text \<open>
  Claim C6, amended. The fold never raises on a sequence of events none of which is null
  or undefined: records with unknown or missing fields, strings, numbers, booleans and
  arrays are folded to completion, unknown fields are ignored (the draft has only the six
  recognised keys), and a field that every event misses stays absent.
\<close>

theorem fold_never_raises_without_null:
  assumes "\<not> list_ex nullish data"
  shows "\<exists>d. build_answer data = Inr d \<and> dom d \<subseteq> set draft_fields \<and>
           (\<forall>k \<in> set draft_fields. (\<forall>m \<in> set data. prop_of m k = JUndefined) \<longrightarrow> d k = None)"
proof -
  have 1: "build_answer data = Inr (\<lambda>k. last_value carries k data)"
    using assms by (simp add: build_answer_char)
  have 2: "dom (\<lambda>k. last_value carries k data) \<subseteq> set draft_fields"
    using last_value_carries_outside by (fastforce simp: dom_def)
  have 3: "\<forall>k \<in> set draft_fields. (\<forall>m \<in> set data. prop_of m k = JUndefined) \<longrightarrow>
             last_value carries k data = None"
    by (auto simp: last_value_def find_None_iff carries_def)
  show ?thesis using 1 2 3 by simp
qed

theorem fold_never_raises_without_null_witness:
  "\<not> list_ex nullish [JObj [(''unknown'', JNum 1)], JStr ''text'', JNum 5, JArr [], JBool True,
       JObj [(''sql_valid'', JNull)]] \<and>
   (\<exists>d. build_answer [JObj [(''unknown'', JNum 1)], JStr ''text'', JNum 5, JArr [], JBool True,
       JObj [(''sql_valid'', JNull)]] = Inr d \<and> d ''unknown'' = None \<and> d ''answer'' = None)"
  using fold_never_raises_without_null
    [of "[JObj [(''unknown'', JNum 1)], JStr ''text'', JNum 5, JArr [], JBool True,
       JObj [(''sql_valid'', JNull)]]"]
  by (auto simp: nullish_def prop_of_def draft_fields_def)

subsection \<open>Disjoint events\<close>

lemma find_filter_hd:
  "List.find P xs = (case filter P xs of [] \<Rightarrow> None | y # ys \<Rightarrow> Some y)"
  by (induction xs) auto

lemma short_list_rev: "length ys \<le> 1 \<Longrightarrow> rev ys = ys"
  by (cases ys) auto

lemma find_rev_unique:
  assumes "length (filter P xs) \<le> 1"
  shows "List.find P (rev xs) = List.find P xs"
proof -
  have "filter P (rev xs) = filter P xs"
    using assms by (simp add: rev_filter [symmetric] short_list_rev)
  then show ?thesis by (simp add: find_filter_hd)
qed

lemma short_list_mset_eq:
  assumes "mset ys = mset zs" and "length ys \<le> 1"
  shows "ys = zs"
proof (cases ys)
  case Nil
  then show ?thesis using assms by simp
next
  case (Cons y ys')
  then have "ys = [y]" using assms by simp
  then show ?thesis using assms by simp
qed

lemma find_perm_unique:
  assumes "mset xs' = mset xs" and "length (filter P xs) \<le> 1"
  shows "List.find P xs' = List.find P xs"
proof -
  have "mset (filter P xs) = mset (filter P xs')"
    using assms by (metis mset_filter)
  then have "filter P xs = filter P xs'"
    using assms by (simp add: short_list_mset_eq)
  then show ?thesis by (simp add: find_filter_hd)
qed

lemma last_value_unique:
  assumes "length (filter (P k) data) \<le> 1"
  shows "last_value P k data = union_of P data k"
  using assms by (simp add: last_value_def union_of_def find_rev_unique)

lemma carries_filter_outside:
  "k \<notin> set draft_fields \<Longrightarrow> filter (carries k) data = []"
  by (simp add: carries_def)

lemma disjoint_fields_all:
  assumes "disjoint_fields carries data"
  shows "length (filter (carries k) data) \<le> 1"
proof (cases "k \<in> set draft_fields")
  case True
  then show ?thesis using assms by (simp add: disjoint_fields_def list_all_iff)
next
  case False
  then show ?thesis by (simp add: carries_filter_outside)
qed

lemma list_ex_nullish_perm:
  "mset xs' = mset xs \<Longrightarrow> list_ex nullish xs' = list_ex nullish xs"
  by (metis list_ex_iff mset_eq_setD)

text \<open>
  Claim C8 as stated, at the single event \<^verbatim>\<open>{answer: ""}\<close>: the non-absent fields are
  trivially pairwise disjoint and the union of the events' fields holds \<^verbatim>\<open>answer\<close>,
  which the fold result lacks.
\<close>

theorem union_present_counterexample:
  "disjoint_fields present [JObj [(''answer'', JStr '''')]] \<and>
   draft_field (build_answer [JObj [(''answer'', JStr '''')]]) ''answer''
     \<noteq> union_of present [JObj [(''answer'', JStr '''')]] ''answer''"
  by (simp add: disjoint_fields_def draft_fields_def present_def prop_of_def draft_field_def
      build_answer_def on_message_def assign_if_truthy_def assign_if_defined_def bind_err_def
      union_of_def)


text \<open>
  Claim C8, amended. For all sequences of events, none null or undefined, in which no field
  passes its guard (a truthy value; for \<^verbatim>\<open>sql_valid\<close> any value other than undefined)
  in two events, the fold result equals the union of the fields that passed their guard,
  and the result is the same for every permutation of the events.
\<close>

theorem disjoint_fold_is_union:
  assumes "disjoint_fields carries data" and "\<not> list_ex nullish data"
    and "mset data' = mset data"
  shows "build_answer data = Inr (union_of carries data) \<and>
         build_answer data' = build_answer data"
proof -
  have u: "last_value carries k data = union_of carries data k" for k
    by (rule last_value_unique) (rule disjoint_fields_all [OF assms(1)])
  have 1: "build_answer data = Inr (union_of carries data)"
    using assms(2) by (simp add: build_answer_char u)
  have d': "length (filter (carries k) data') \<le> 1" for k
  proof -
    have "mset (filter (carries k) data') = mset (filter (carries k) data)"
      using assms(3) by (metis mset_filter)
    then have "length (filter (carries k) data') = length (filter (carries k) data)"
      by (rule mset_eq_length)
    then show ?thesis using disjoint_fields_all [OF assms(1), of k] by simp
  qed
  have "union_of carries data' k = union_of carries data k" for k
    using find_perm_unique [OF assms(3) disjoint_fields_all [OF assms(1)], of k]
    by (simp add: union_of_def)
  then have "union_of carries data' = union_of carries data" by (simp add: fun_eq_iff)
  moreover have "\<not> list_ex nullish data'"
    using list_ex_nullish_perm [OF assms(3)] assms(2) by simp
  moreover have "last_value carries k data' = union_of carries data' k" for k
    by (rule last_value_unique) (rule d')
  ultimately have "build_answer data' = Inr (union_of carries data)"
    by (simp only: build_answer_char if_False)
  then show ?thesis using 1 by simp
qed

theorem disjoint_fold_is_union_witness:
  "disjoint_fields carries [JObj [(''answer'', JStr ''a'')], JObj [(''sql_valid'', JBool False)]] \<and>
   \<not> list_ex nullish [JObj [(''answer'', JStr ''a'')], JObj [(''sql_valid'', JBool False)]] \<and>
   mset [JObj [(''sql_valid'', JBool False)], JObj [(''answer'', JStr ''a'')]]
     = mset [JObj [(''answer'', JStr ''a'')], JObj [(''sql_valid'', JBool False)]] \<and>
   build_answer [JObj [(''sql_valid'', JBool False)], JObj [(''answer'', JStr ''a'')]]
     = build_answer [JObj [(''answer'', JStr ''a'')], JObj [(''sql_valid'', JBool False)]]"
proof -
  have h1: "disjoint_fields carries [JObj [(''answer'', JStr ''a'')], JObj [(''sql_valid'', JBool False)]]"
    by (simp add: disjoint_fields_def draft_fields_def carries_def prop_of_def)
  have h2: "\<not> list_ex nullish [JObj [(''answer'', JStr ''a'')], JObj [(''sql_valid'', JBool False)]]"
    by (simp add: nullish_def)
  have h3: "mset [JObj [(''sql_valid'', JBool False)], JObj [(''answer'', JStr ''a'')]]
     = mset [JObj [(''answer'', JStr ''a'')], JObj [(''sql_valid'', JBool False)]]"
    by simp
  have "build_answer [JObj [(''sql_valid'', JBool False)], JObj [(''answer'', JStr ''a'')]]
     = build_answer [JObj [(''answer'', JStr ''a'')], JObj [(''sql_valid'', JBool False)]]"
    using disjoint_fold_is_union [OF h1 h2 h3] by (rule conjunct2)
  with h1 h2 h3 show ?thesis by (intro conjI)
qed

subsection \<open>What the success callback appends\<close>

lemma onSuccess_ok:
  assumes "\<not> list_ex nullish data"
  shows "onSuccess captured data st =
     Inr (st\<lparr>messages := messages st @
       [Ai_answer ((\<lambda>k. last_value carries k data)(''model_used'' \<mapsto> captured))]\<rparr>)"
  using assms build_answer_char [of data]
  by (simp add: onSuccess_def build_answer_def)

lemma onSuccess_raises:
  assumes "list_ex nullish data"
  shows "onSuccess captured data st = Inl TypeError"
  using assms build_answer_char [of data]
  by (simp add: onSuccess_def build_answer_def)

subsection \<open>The request body\<close>

lemma askQuestion_keys:
  "map fst (snd (askQuestion Number st)) =
     [''question'', ''type'', ''llm_model'']
     @ (if nonempty (data_source_id st) then [''dataset_id'', ''selected_tables''] else [])
     @ (if nonempty (conversation_id st) then [''conversaction_id''] else [])"
  by (simp add: askQuestion_def Let_def)

text \<open>
  Claim C7, evaluated at a question submitted in direct chat mode with the route parameter
  \<^verbatim>\<open>conversation_id\<close> equal to \<^verbatim>\<open>"7"\<close>: the request body has the field
  \<^verbatim>\<open>conversaction_id\<close>, and no field \<^verbatim>\<open>conversation_id\<close>.
\<close>

theorem request_body_conversation_key:
  "map fst (snd (askQuestion (\<lambda>s. if s = ''7'' then JNum 7 else JNaN)
      \<lparr>question = ''how many'', datasetType = None, messages = [], processingMessages = [],
        tables = [], dataSets = None, selectedModel = JStr ''gpt-4o-mini'',
        data_source_id = None, conversation_id = Some ''7''\<rparr>))
   = [''question'', ''type'', ''llm_model'', ''conversaction_id'']"
  by (simp add: askQuestion_def Let_def nonempty_def)

subsection \<open>The message list\<close>

lemma onSuccess_messages:
  "onSuccess captured data st = Inr st' \<Longrightarrow> \<exists>m. messages st' = messages st @ [m]"
  by (cases "forEach_messages Map.empty data") (auto simp: onSuccess_def)

lemma dataset_effect_messages:
  "prefix (messages st) (messages (dataset_effect Number now st))"
  by (simp add: dataset_effect_def Let_def split: list.splits)

lemma chat_step_prefix:
  "prefix (messages st) (messages (chat_step Number st op))"
proof (cases op)
  case Op_askQuestion
  then show ?thesis by (simp add: askQuestion_def Let_def)
next
  case (Op_onSuccess captured data)
  then show ?thesis
    by (cases "onSuccess captured data st") (auto dest: onSuccess_messages)
next
  case (Op_setDataSets dss now)
  then show ?thesis
    using dataset_effect_messages [of "st\<lparr>dataSets := Some dss\<rparr>" Number now] by simp
next
  case (Op_navigate dsid cid now)
  then show ?thesis
    using dataset_effect_messages [of "st\<lparr>data_source_id := dsid, conversation_id := cid\<rparr>" Number now]
    by simp
qed (simp_all add: onStreamData_def)

lemma chat_run_prefix:
  "prefix (messages st) (messages (chat_run Number st ops))"
proof (induction ops arbitrary: st)
  case Nil
  show ?case by (simp add: chat_run_def)
next
  case (Cons op ops)
  have "prefix (messages st) (messages (chat_step Number st op))"
    by (rule chat_step_prefix)
  also have "prefix \<dots> (messages (chat_run Number (chat_step Number st op) ops))"
    by (rule Cons.IH)
  finally show ?case by (simp add: chat_run_def)
qed

text \<open>
  Claim C9. Whatever sequence of handlers, callbacks and effects runs, every message of the
  list before is still in the list after, unchanged and at the same position: the list
  only grows at its end, and its length never decreases.
\<close>

theorem messages_append_only:
  "prefix (messages st) (messages (chat_run Number st ops)) \<and>
   length (messages st) \<le> length (messages (chat_run Number st ops)) \<and>
   (\<forall>i < length (messages st). messages (chat_run Number st ops) ! i = messages st ! i)"
proof -
  have p: "prefix (messages st) (messages (chat_run Number st ops))"
    by (rule chat_run_prefix)
  then obtain zs where "messages (chat_run Number st ops) = messages st @ zs"
    by (auto simp: prefix_def)
  then show ?thesis using p by (simp add: nth_append)
qed

theorem messages_append_only_witness:
  "0 < length (messages
       \<lparr>question = ''and then'', datasetType = None, messages = [User_question ''how many''],
        processingMessages = [], tables = [], dataSets = None, selectedModel = JStr ''gpt-4o'',
        data_source_id = Some ''3'', conversation_id = None\<rparr>) \<and>
   messages (chat_run (\<lambda>s. JNum 3)
       \<lparr>question = ''and then'', datasetType = None, messages = [User_question ''how many''],
        processingMessages = [], tables = [], dataSets = None, selectedModel = JStr ''gpt-4o'',
        data_source_id = Some ''3'', conversation_id = None\<rparr>
       [Op_onSuccess (JStr ''gpt-4o'') [JObj [(''answer'', JStr ''four'')]],
        Op_setDataSets [\<lparr>ds_id = 3, ds_name = Some ''sales.csv'', table_name = Some ''sales'',
                          ds_type = ''spreadsheet''\<rparr>] 0,
        Op_askQuestion]) ! 0 = User_question ''how many''"
  using messages_append_only
    [of "\<lparr>question = ''and then'', datasetType = None, messages = [User_question ''how many''],
        processingMessages = [], tables = [], dataSets = None, selectedModel = JStr ''gpt-4o'',
        data_source_id = Some ''3'', conversation_id = None\<rparr>"
        "\<lambda>s. JNum 3"
        "[Op_onSuccess (JStr ''gpt-4o'') [JObj [(''answer'', JStr ''four'')]],
        Op_setDataSets [\<lparr>ds_id = 3, ds_name = Some ''sales.csv'', table_name = Some ''sales'',
                          ds_type = ''spreadsheet''\<rparr>] 0,
        Op_askQuestion]"]
  by simp

subsection \<open>Sessions\<close>

lemma stale_event_ignored:
  assumes "from_session_upto c ev" and "c < session_counter st"
  shows "app_step Number st ev = st"
  using assms by (cases ev) (simp_all add: accepts_def)

lemma session_counter_mono:
  "session_counter st \<le> session_counter (app_step Number st ev)"
  by (cases ev) simp_all

lemma app_run_filter_stale:
  assumes "c < session_counter st"
  shows "app_run Number st evs =
         app_run Number st (filter (\<lambda>ev. \<not> from_session_upto c ev) evs)"
  using assms
proof (induction evs arbitrary: st)
  case Nil
  show ?case by (simp add: app_run_def)
next
  case (Cons ev evs)
  show ?case
  proof (cases "from_session_upto c ev")
    case True
    then have "app_step Number st ev = st"
      using Cons.prems by (rule stale_event_ignored)
    then show ?thesis
      using True Cons.IH [OF Cons.prems] by (simp add: app_run_def)
  next
    case False
    have "c < session_counter (app_step Number st ev)"
      using Cons.prems session_counter_mono [of st Number ev] by simp
    then show ?thesis
      using False Cons.IH [of "app_step Number st ev"] by (simp add: app_run_def)
  qed
qed

lemma app_run_Nil: "app_run Number st [] = st"
  by (simp add: app_run_def)

lemma app_run_Cons: "app_run Number st (ev # evs) = app_run Number (app_step Number st ev) evs"
  by (simp add: app_run_def)

lemma app_run_append:
  "app_run Number st (evs @ evs') = app_run Number (app_run Number st evs) evs'"
  by (simp add: app_run_def)

lemma dataset_effect_quiet:
  assumes "messages st \<noteq> []"
  shows "messages (dataset_effect Number now st) = messages st \<and>
         processingMessages (dataset_effect Number now st) = processingMessages st"
  using assms by (simp add: dataset_effect_def Let_def split: list.splits)

text \<open>
  One step while a session streams: the counter and the messages stay, and the received
  events grow by the session's own event, if the step is one.
\<close>

lemma in_flight_step:
  assumes "live s" and "in_flight (session_counter s) ev" and "messages (chat s) \<noteq> []"
    and "processingMessages (chat s) = streamData s"
  shows "session_counter (app_step Number s ev) = session_counter s \<and>
         live (app_step Number s ev) \<and>
         streamData (app_step Number s ev) = streamData s @ session_events (session_counter s) [ev] \<and>
         processingMessages (chat (app_step Number s ev)) = streamData (app_step Number s ev) \<and>
         messages (chat (app_step Number s ev)) = messages (chat s)"
proof (cases ev)
  case Submit
  then show ?thesis using assms by simp
next
  case (Stream_event sid e)
  then show ?thesis using assms by (simp add: accepts_def onStreamData_def)
next
  case (Stream_success sid)
  then show ?thesis using assms by (simp add: accepts_def)
next
  case (Stream_failure sid)
  then show ?thesis using assms by (simp add: accepts_def)
next
  case (Other op)
  show ?thesis
  proof (cases op)
    case (Op_setDataSets dss now)
    then show ?thesis
      using Other assms dataset_effect_quiet [of "chat s\<lparr>dataSets := Some dss\<rparr>" Number now]
      by simp
  next
    case (Op_navigate dsid cid now)
    then show ?thesis
      using Other assms
        dataset_effect_quiet [of "chat s\<lparr>data_source_id := dsid, conversation_id := cid\<rparr>" Number now]
      by simp
  qed (use Other assms in simp_all)
qed

lemma session_events_Cons:
  "session_events c (ev # evs) = session_events c [ev] @ session_events c evs"
  by (cases ev) simp_all

lemma in_flight_run:
  assumes "live s" and "\<forall>ev \<in> set evs. in_flight (session_counter s) ev"
    and "messages (chat s) \<noteq> []" and "processingMessages (chat s) = streamData s"
  shows "session_counter (app_run Number s evs) = session_counter s \<and>
         live (app_run Number s evs) \<and>
         streamData (app_run Number s evs) = streamData s @ session_events (session_counter s) evs \<and>
         processingMessages (chat (app_run Number s evs)) = streamData (app_run Number s evs) \<and>
         messages (chat (app_run Number s evs)) = messages (chat s)"
  using assms
proof (induction evs arbitrary: s)
  case Nil
  then show ?case by (simp add: app_run_def)
next
  case (Cons ev evs)
  have step: "session_counter (app_step Number s ev) = session_counter s \<and>
         live (app_step Number s ev) \<and>
         streamData (app_step Number s ev) = streamData s @ session_events (session_counter s) [ev] \<and>
         processingMessages (chat (app_step Number s ev)) = streamData (app_step Number s ev) \<and>
         messages (chat (app_step Number s ev)) = messages (chat s)"
    using Cons.prems by (intro in_flight_step) simp_all
  have rest: "\<forall>ev' \<in> set evs. in_flight (session_counter (app_step Number s ev)) ev'"
    using Cons.prems(2) step by simp
  have nonempty: "messages (chat (app_step Number s ev)) \<noteq> []"
    using Cons.prems(3) step by simp
  have ih: "session_counter (app_run Number (app_step Number s ev) evs) = session_counter (app_step Number s ev) \<and>
         live (app_run Number (app_step Number s ev) evs) \<and>
         streamData (app_run Number (app_step Number s ev) evs) =
           streamData (app_step Number s ev) @ session_events (session_counter (app_step Number s ev)) evs \<and>
         processingMessages (chat (app_run Number (app_step Number s ev) evs)) =
           streamData (app_run Number (app_step Number s ev) evs) \<and>
         messages (chat (app_run Number (app_step Number s ev) evs)) = messages (chat (app_step Number s ev))"
    using step rest nonempty by (intro Cons.IH) simp_all
  show ?case
    using step ih session_events_Cons [of "session_counter s" ev evs]
    by (simp add: app_run_Cons)
qed

text \<open>The state a submission leaves, and what holds while its session streams.\<close>

lemma after_Submit:
  "session_counter (app_step Number st Submit) = session_counter st + 1 \<and>
   live (app_step Number st Submit) \<and>
   streamData (app_step Number st Submit) = [] \<and>
   processingMessages (chat (app_step Number st Submit)) = [] \<and>
   messages (chat (app_step Number st Submit)) =
     messages (chat st) @ [User_question (question (chat st))] \<and>
   selectedModel (chat (app_step Number st Submit)) = selectedModel (chat st)"
  by (simp add: askQuestion_def Let_def)

lemma streaming_state:
  assumes "\<forall>ev \<in> set evs. in_flight (session_counter st + 1) ev"
  shows "session_counter (app_run Number (app_step Number st Submit) evs) = session_counter st + 1 \<and>
         live (app_run Number (app_step Number st Submit) evs) \<and>
         streamData (app_run Number (app_step Number st Submit) evs) =
           session_events (session_counter st + 1) evs \<and>
         processingMessages (chat (app_run Number (app_step Number st Submit) evs)) =
           session_events (session_counter st + 1) evs \<and>
         messages (chat (app_run Number (app_step Number st Submit) evs)) =
           messages (chat st) @ [User_question (question (chat st))]"
proof -
  have "session_counter (app_run Number (app_step Number st Submit) evs) =
          session_counter (app_step Number st Submit) \<and>
        live (app_run Number (app_step Number st Submit) evs) \<and>
        streamData (app_run Number (app_step Number st Submit) evs) =
          streamData (app_step Number st Submit) @
            session_events (session_counter (app_step Number st Submit)) evs \<and>
        processingMessages (chat (app_run Number (app_step Number st Submit) evs)) =
          streamData (app_run Number (app_step Number st Submit) evs) \<and>
        messages (chat (app_run Number (app_step Number st Submit) evs)) =
          messages (chat (app_step Number st Submit))"
    using assms after_Submit [of Number st] by (intro in_flight_run) simp_all
  then show ?thesis using after_Submit [of Number st] by simp
qed

lemma success_assembles:
  assumes "accepts s sid" and "\<not> list_ex nullish (streamData s)"
  shows "messages (chat (app_step Number s (Stream_success sid))) =
     messages (chat s) @
       [Ai_answer ((\<lambda>k. last_value carries k (streamData s))
                    (''model_used'' \<mapsto> selectedModel (chat s)))]"
  using assms by (simp add: onSuccess_ok)

lemma session_success:
  assumes "\<forall>ev \<in> set evs. in_flight (session_counter st + 1) ev"
    and "\<not> list_ex nullish (session_events (session_counter st + 1) evs)"
  shows "messages (chat (app_run Number st (Submit # evs @ [Stream_success (session_counter st + 1)]))) =
     messages (chat st) @
       [User_question (question (chat st)),
        Ai_answer ((\<lambda>k. last_value carries k (session_events (session_counter st + 1) evs))
                    (''model_used'' \<mapsto> selectedModel (chat (app_run Number st (Submit # evs)))))]"
proof -
  let ?s2 = "app_run Number (app_step Number st Submit) evs"
  have s: "session_counter ?s2 = session_counter st + 1 \<and> live ?s2 \<and>
           streamData ?s2 = session_events (session_counter st + 1) evs \<and>
           processingMessages (chat ?s2) = session_events (session_counter st + 1) evs \<and>
           messages (chat ?s2) = messages (chat st) @ [User_question (question (chat st))]"
    using assms(1) by (rule streaming_state)
  have acc: "accepts ?s2 (session_counter st + 1)"
    using s by (simp add: accepts_def)
  have ok: "\<not> list_ex nullish (streamData ?s2)"
    using s assms(2) by simp
  have "messages (chat (app_step Number ?s2 (Stream_success (session_counter st + 1)))) =
     messages (chat ?s2) @
       [Ai_answer ((\<lambda>k. last_value carries k (streamData ?s2))
                    (''model_used'' \<mapsto> selectedModel (chat ?s2)))]"
    using acc ok by (rule success_assembles)
  then show ?thesis
    using s by (simp add: app_run_Nil app_run_Cons app_run_append del: app_step.simps)
qed

lemma session_events_append:
  "session_events c (evs @ evs') = session_events c evs @ session_events c evs'"
proof (induction evs)
  case Nil
  show ?case by simp
next
  case (Cons ev evs)
  then show ?case
    using session_events_Cons [of c ev "evs @ evs'"] session_events_Cons [of c ev evs]
    by simp
qed

subsection \<open>Supersession\<close>

text \<open>
  Claim C2. Submitting a question starts session S2 under the incremented counter. From
  then on every event and terminal signal of a session started before it (S1 among them)
  is ignored: the state after any sequence of events is the state reached when those stale
  events are never delivered. While S2 streams, whatever S1 still delivers, the processing
  state holds the events of S2 alone and no answer is appended; when S2 succeeds, the one
  answer appended is the fold of the events of S2 alone.
\<close>

theorem only_current_session_is_assembled:
  assumes "\<forall>ev \<in> set evs. in_flight (session_counter st + 1) ev"
    and "\<not> list_ex nullish (session_events (session_counter st + 1) evs)"
  shows "session_counter (app_step Number st Submit) = session_counter st + 1 \<and>
     app_run Number (app_step Number st Submit) evs' =
       app_run Number (app_step Number st Submit)
         (filter (\<lambda>ev. \<not> from_session_upto (session_counter st) ev) evs') \<and>
     processingMessages (chat (app_run Number st (Submit # evs))) =
       session_events (session_counter st + 1) evs \<and>
     messages (chat (app_run Number st (Submit # evs))) =
       messages (chat st) @ [User_question (question (chat st))] \<and>
     (\<exists>d. build_answer (session_events (session_counter st + 1) evs) = Inr d \<and>
        messages (chat (app_run Number st
            (Submit # evs @ [Stream_success (session_counter st + 1)]))) =
          messages (chat st) @
            [User_question (question (chat st)),
             Ai_answer (d(''model_used'' \<mapsto>
                selectedModel (chat (app_run Number st (Submit # evs)))))])"
proof -
  have 1: "session_counter (app_step Number st Submit) = session_counter st + 1"
    by simp
  have "session_counter st < session_counter (app_step Number st Submit)"
    by simp
  then have 2: "app_run Number (app_step Number st Submit) evs' =
       app_run Number (app_step Number st Submit)
         (filter (\<lambda>ev. \<not> from_session_upto (session_counter st) ev) evs')"
    by (rule app_run_filter_stale)
  have s: "session_counter (app_run Number (app_step Number st Submit) evs) = session_counter st + 1 \<and>
         live (app_run Number (app_step Number st Submit) evs) \<and>
         streamData (app_run Number (app_step Number st Submit) evs) =
           session_events (session_counter st + 1) evs \<and>
         processingMessages (chat (app_run Number (app_step Number st Submit) evs)) =
           session_events (session_counter st + 1) evs \<and>
         messages (chat (app_run Number (app_step Number st Submit) evs)) =
           messages (chat st) @ [User_question (question (chat st))]"
    using assms(1) by (rule streaming_state)
  have 3: "processingMessages (chat (app_run Number st (Submit # evs))) =
       session_events (session_counter st + 1) evs"
    using s by (simp add: app_run_Cons del: app_step.simps)
  have 4: "messages (chat (app_run Number st (Submit # evs))) =
       messages (chat st) @ [User_question (question (chat st))]"
    using s by (simp add: app_run_Cons del: app_step.simps)
  have b: "build_answer (session_events (session_counter st + 1) evs) =
       Inr (\<lambda>k. last_value carries k (session_events (session_counter st + 1) evs))"
    using assms(2) by (simp add: build_answer_char)
  have 5: "\<exists>d. build_answer (session_events (session_counter st + 1) evs) = Inr d \<and>
        messages (chat (app_run Number st
            (Submit # evs @ [Stream_success (session_counter st + 1)]))) =
          messages (chat st) @
            [User_question (question (chat st)),
             Ai_answer (d(''model_used'' \<mapsto>
                selectedModel (chat (app_run Number st (Submit # evs)))))]"
    using b session_success [OF assms, of Number] by blast
  show ?thesis using 1 2 3 4 5 by (intro conjI)
qed

theorem only_current_session_is_assembled_witness:
  "processingMessages (chat (app_run (\<lambda>s. JNaN)
      \<lparr>chat = \<lparr>question = ''second'', datasetType = None,
                messages = [User_question ''first''],
                processingMessages = [JObj [(''sql_query'', JStr ''SELECT 1'')]], tables = [],
                dataSets = None, selectedModel = JStr ''gpt-4o'',
                data_source_id = None, conversation_id = None\<rparr>,
        session_counter = 1, live = True,
        streamData = [JObj [(''sql_query'', JStr ''SELECT 1'')]]\<rparr>
      [Submit, Stream_event 1 (JObj [(''answer'', JStr ''stale'')]),
       Stream_event 2 (JObj [(''answer'', JStr ''fresh'')]), Stream_success 1]))
     = [JObj [(''answer'', JStr ''fresh'')]] \<and>
   messages (chat (app_run (\<lambda>s. JNaN)
      \<lparr>chat = \<lparr>question = ''second'', datasetType = None,
                messages = [User_question ''first''],
                processingMessages = [JObj [(''sql_query'', JStr ''SELECT 1'')]], tables = [],
                dataSets = None, selectedModel = JStr ''gpt-4o'',
                data_source_id = None, conversation_id = None\<rparr>,
        session_counter = 1, live = True,
        streamData = [JObj [(''sql_query'', JStr ''SELECT 1'')]]\<rparr>
      [Submit, Stream_event 1 (JObj [(''answer'', JStr ''stale'')]),
       Stream_event 2 (JObj [(''answer'', JStr ''fresh'')]), Stream_success 1]))
     = [User_question ''first'', User_question ''second'']"
  using only_current_session_is_assembled
    [of "[Stream_event 1 (JObj [(''answer'', JStr ''stale'')]),
          Stream_event 2 (JObj [(''answer'', JStr ''fresh'')]), Stream_success 1]"
        "\<lparr>chat = \<lparr>question = ''second'', datasetType = None,
                messages = [User_question ''first''],
                processingMessages = [JObj [(''sql_query'', JStr ''SELECT 1'')]], tables = [],
                dataSets = None, selectedModel = JStr ''gpt-4o'',
                data_source_id = None, conversation_id = None\<rparr>,
        session_counter = 1, live = True,
        streamData = [JObj [(''sql_query'', JStr ''SELECT 1'')]]\<rparr>"
        "\<lambda>s. JNaN" "[]"]
  by (simp add: nullish_def del: app_step.simps)

subsection \<open>The model stamped on an answer\<close>

text \<open>
  Claim C3. The request carries the selection of submission time in \<^verbatim>\<open>llm_model\<close>. The
  answer assembled when the stream completes is stamped with the selected model read at
  that moment, the value captured by the callback that is called: whatever happens while
  the question streams, \<^verbatim>\<open>model_used\<close> is the selection held just before the success
  signal, and when the selection changes to \<open>v\<close> while the question is streaming, \<open>v\<close> is
  stamped on the answer.
\<close>

theorem model_used_is_selection_at_assembly:
  assumes "\<forall>ev \<in> set evs. in_flight (session_counter st + 1) ev"
    and "\<not> list_ex nullish (session_events (session_counter st + 1) evs)"
  shows "map_of (snd (askQuestion Number (chat st))) ''llm_model'' = Some (selectedModel (chat st)) \<and>
     (\<forall>captured data cs. \<not> list_ex nullish data \<longrightarrow>
        (\<exists>ai. onSuccess captured data cs = Inr (cs\<lparr>messages := messages cs @ [Ai_answer ai]\<rparr>) \<and>
              ai ''model_used'' = Some captured)) \<and>
     (\<exists>ai. messages (chat (app_run Number st
              (Submit # evs @ [Stream_success (session_counter st + 1)]))) =
            messages (chat st) @ [User_question (question (chat st)), Ai_answer ai] \<and>
          ai ''model_used'' = Some (selectedModel (chat (app_run Number st (Submit # evs))))) \<and>
     (\<exists>ai. messages (chat (app_run Number st
              (Submit # (evs @ [Other (Op_setModel v)]) @
                 [Stream_success (session_counter st + 1)]))) =
            messages (chat st) @ [User_question (question (chat st)), Ai_answer ai] \<and>
          ai ''model_used'' = Some v)"
proof -
  let ?c = "session_counter st + 1"
  let ?fold = "\<lambda>es m. (\<lambda>k. last_value carries k (session_events ?c es))(''model_used'' \<mapsto> m)"
  have a: "map_of (snd (askQuestion Number (chat st))) ''llm_model'' = Some (selectedModel (chat st))"
    by (simp add: askQuestion_def Let_def)
  have b: "\<forall>captured data cs. \<not> list_ex nullish data \<longrightarrow>
        (\<exists>ai. onSuccess captured data cs = Inr (cs\<lparr>messages := messages cs @ [Ai_answer ai]\<rparr>) \<and>
              ai ''model_used'' = Some captured)"
  proof (intro allI impI)
    fix captured data cs
    assume "\<not> list_ex nullish data"
    then have "onSuccess captured data cs = Inr (cs\<lparr>messages := messages cs @
       [Ai_answer ((\<lambda>k. last_value carries k data)(''model_used'' \<mapsto> captured))]\<rparr>)"
      by (rule onSuccess_ok)
    then show "\<exists>ai. onSuccess captured data cs = Inr (cs\<lparr>messages := messages cs @ [Ai_answer ai]\<rparr>) \<and>
              ai ''model_used'' = Some captured"
      by (intro exI [of _ "(\<lambda>k. last_value carries k data)(''model_used'' \<mapsto> captured)"]) simp
  qed
  have 1: "messages (chat (app_run Number st (Submit # evs @ [Stream_success ?c]))) =
      messages (chat st) @ [User_question (question (chat st)),
        Ai_answer (?fold evs (selectedModel (chat (app_run Number st (Submit # evs)))))]"
    using assms by (rule session_success)
  have c: "\<exists>ai. messages (chat (app_run Number st (Submit # evs @ [Stream_success ?c]))) =
            messages (chat st) @ [User_question (question (chat st)), Ai_answer ai] \<and>
          ai ''model_used'' = Some (selectedModel (chat (app_run Number st (Submit # evs))))"
  proof (intro exI conjI)
    show "messages (chat (app_run Number st (Submit # evs @ [Stream_success ?c]))) =
      messages (chat st) @ [User_question (question (chat st)),
        Ai_answer (?fold evs (selectedModel (chat (app_run Number st (Submit # evs)))))]"
      by (rule 1)
    show "?fold evs (selectedModel (chat (app_run Number st (Submit # evs)))) ''model_used'' =
        Some (selectedModel (chat (app_run Number st (Submit # evs))))"
      by (simp only: fun_upd_same)
  qed
  have fl: "\<forall>ev \<in> set (evs @ [Other (Op_setModel v)]). in_flight ?c ev"
    using assms(1) by simp
  have ev: "session_events ?c (evs @ [Other (Op_setModel v)]) = session_events ?c evs"
    by (simp add: session_events_append)
  have ok: "\<not> list_ex nullish (session_events ?c (evs @ [Other (Op_setModel v)]))"
    using assms(2) ev by simp
  have sel: "selectedModel (chat (app_run Number st (Submit # (evs @ [Other (Op_setModel v)])))) = v"
    by (simp add: app_run_def)
  have 2: "messages (chat (app_run Number st
              (Submit # (evs @ [Other (Op_setModel v)]) @ [Stream_success ?c]))) =
      messages (chat st) @ [User_question (question (chat st)),
        Ai_answer (?fold (evs @ [Other (Op_setModel v)])
          (selectedModel (chat (app_run Number st (Submit # (evs @ [Other (Op_setModel v)]))))))]"
    using fl ok by (rule session_success)
  have d: "\<exists>ai. messages (chat (app_run Number st
              (Submit # (evs @ [Other (Op_setModel v)]) @ [Stream_success ?c]))) =
            messages (chat st) @ [User_question (question (chat st)), Ai_answer ai] \<and>
          ai ''model_used'' = Some v"
  proof (intro exI conjI)
    show "messages (chat (app_run Number st
              (Submit # (evs @ [Other (Op_setModel v)]) @ [Stream_success ?c]))) =
      messages (chat st) @ [User_question (question (chat st)),
        Ai_answer (?fold (evs @ [Other (Op_setModel v)])
          (selectedModel (chat (app_run Number st (Submit # (evs @ [Other (Op_setModel v)]))))))]"
      by (rule 2)
    show "?fold (evs @ [Other (Op_setModel v)])
          (selectedModel (chat (app_run Number st (Submit # (evs @ [Other (Op_setModel v)])))))
          ''model_used'' = Some v"
      by (simp only: fun_upd_same sel)
  qed
  show ?thesis using a b c d by (intro conjI)
qed

theorem model_used_is_selection_at_assembly_witness:
  "\<exists>ai. messages (chat (app_run (\<lambda>s. JNaN)
      \<lparr>chat = \<lparr>question = ''how many'', datasetType = None, messages = [],
                processingMessages = [], tables = [], dataSets = None,
                selectedModel = JStr ''gpt-4o-mini'',
                data_source_id = None, conversation_id = None\<rparr>,
        session_counter = 0, live = False, streamData = []\<rparr>
      [Submit, Stream_event 1 (JObj [(''answer'', JStr ''four'')]),
       Other (Op_setModel (JStr ''gpt-4o'')), Stream_success 1]))
     = [User_question ''how many'', Ai_answer ai] \<and>
     ai ''model_used'' = Some (JStr ''gpt-4o'')"
  using model_used_is_selection_at_assembly
    [of "[Stream_event 1 (JObj [(''answer'', JStr ''four'')])]"
        "\<lparr>chat = \<lparr>question = ''how many'', datasetType = None, messages = [],
                processingMessages = [], tables = [], dataSets = None,
                selectedModel = JStr ''gpt-4o-mini'',
                data_source_id = None, conversation_id = None\<rparr>,
        session_counter = 0, live = False, streamData = []\<rparr>"
        "\<lambda>s. JNaN" "JStr ''gpt-4o''"]
  by (simp add: nullish_def del: app_step.simps)

subsection \<open>The default model\<close>

text \<open>
  Claim C4 as stated, at a selector whose catalog load fails and whose user then picks the
  option "Select LLM Model", of empty value: the rule fires after the load, and fires again
  after the user's selection, which it overwrites with the default.
\<close>

theorem default_rule_refires_counterexample:
  "model (selector_run fallback_ModelSelector
      \<lparr>model = JUndefined, availableModels = [], loadingModels = True\<rparr>
      [Fetch_done Fetch_throws, User_select '''']) = JStr ''gpt-4o-mini'' \<and>
   model (selector_run fallback_ModelSelector
      \<lparr>model = JUndefined, availableModels = [], loadingModels = True\<rparr>
      [Fetch_done Fetch_throws, User_select '''']) \<noteq> JStr ''''"
  by (simp add: selector_run_def fetchModels_def default_model_effect_def setModel_def
      fallback_ModelSelector_def)

lemma find_name_Some:
  "List.find (\<lambda>m. name m = n) ms = Some x \<Longrightarrow> name x = n \<and> n \<in> name ` set ms"
  by (induction ms) (auto split: if_splits)

lemma default_model_effect_unset:
  assumes "\<not> truthy (model st)" and "availableModels st \<noteq> []"
  shows "model (default_model_effect st) =
     (if ''gpt-4o-mini'' \<in> name ` set (availableModels st) then JStr ''gpt-4o-mini''
      else model st)"
proof (cases "List.find (\<lambda>m. name m = ''gpt-4o-mini'') (availableModels st)")
  case None
  then have "''gpt-4o-mini'' \<notin> name ` set (availableModels st)"
    by (auto simp: find_None_iff)
  then show ?thesis using None assms by (simp add: default_model_effect_def)
next
  case (Some x)
  then show ?thesis
    using assms find_name_Some [OF Some] by (simp add: default_model_effect_def setModel_def)
qed

lemma default_model_effect_set:
  "truthy (model st) \<Longrightarrow> default_model_effect st = st"
  by (simp add: default_model_effect_def)

lemma fetchModels_model: "model (fetchModels fb outcome st) = model st"
  by (simp add: fetchModels_def split: fetch_outcome.splits option.splits)

lemma selector_step_keeps:
  assumes "truthy (model st)" and "\<not> is_user_select ev"
  shows "model (selector_step fb st ev) = model st"
  using assms by (cases ev) (simp_all add: default_model_effect_set fetchModels_model)

lemma selector_run_keeps:
  assumes "truthy (model st)" and "\<forall>ev \<in> set evs. \<not> is_user_select ev"
  shows "model (selector_run fb st evs) = model st"
  using assms
proof (induction evs arbitrary: st)
  case Nil
  show ?case by (simp add: selector_run_def)
next
  case (Cons ev evs)
  have k: "model (selector_step fb st ev) = model st"
    using Cons.prems by (simp add: selector_step_keeps)
  then have "truthy (model (selector_step fb st ev))" using Cons.prems by simp
  then have "model (selector_run fb (selector_step fb st ev) evs) = model (selector_step fb st ev)"
    using Cons.prems by (intro Cons.IH) auto
  then show ?case using k by (simp add: selector_run_def)
qed

text \<open>
  Claim C4, amended. The default-selection rule fires whenever the model list is non-empty
  and the selected model is unset or empty: the selected model is then set to
  \<^verbatim>\<open>gpt-4o-mini\<close> if that id is in the list and left as it is otherwise; in every other
  state the rule changes nothing. After an explicit user selection of a non-empty model id
  no automatic assignment overwrites the selected model, whatever remounts and catalog
  reloads follow.
\<close>

theorem default_rule_and_explicit_selection:
  "(\<not> truthy (model st) \<and> availableModels st \<noteq> [] \<longrightarrow>
      model (default_model_effect st) =
        (if ''gpt-4o-mini'' \<in> name ` set (availableModels st) then JStr ''gpt-4o-mini''
         else model st)) \<and>
   (truthy (model st) \<or> availableModels st = [] \<longrightarrow> default_model_effect st = st) \<and>
   (v \<noteq> [] \<and> (\<forall>ev \<in> set evs. \<not> is_user_select ev) \<longrightarrow>
      model (selector_run fb (selector_step fb st (User_select v)) evs) = JStr v)"
proof -
  have a: "\<not> truthy (model st) \<and> availableModels st \<noteq> [] \<longrightarrow>
      model (default_model_effect st) =
        (if ''gpt-4o-mini'' \<in> name ` set (availableModels st) then JStr ''gpt-4o-mini''
         else model st)"
    using default_model_effect_unset by blast
  have b: "truthy (model st) \<or> availableModels st = [] \<longrightarrow> default_model_effect st = st"
    by (auto simp: default_model_effect_def)
  have c: "model (selector_run fb (selector_step fb st (User_select v)) evs) = JStr v"
    if "v \<noteq> []" and "\<forall>ev \<in> set evs. \<not> is_user_select ev"
  proof -
    have s: "selector_step fb st (User_select v) = setModel v st"
      using that(1) by (simp add: default_model_effect_set setModel_def)
    have "truthy (model (setModel v st))" using that(1) by (simp add: setModel_def)
    then have "model (selector_run fb (setModel v st) evs) = model (setModel v st)"
      using that(2) by (rule selector_run_keeps)
    then show ?thesis unfolding s by (simp add: setModel_def)
  qed
  show ?thesis using a b c by blast
qed

theorem default_rule_and_explicit_selection_witness:
  "model (default_model_effect
      \<lparr>model = JStr '''', availableModels = fallback_SelectDataset, loadingModels = False\<rparr>)
     = JStr ''gpt-4o-mini'' \<and>
   model (selector_run fallback_SelectDataset
      (selector_step fallback_SelectDataset
         \<lparr>model = JStr '''', availableModels = fallback_SelectDataset, loadingModels = False\<rparr>
         (User_select ''gemma2-9b-it''))
      [Mount, Fetch_done Fetch_throws, Fetch_done Json_null]) = JStr ''gemma2-9b-it''"
  using default_rule_and_explicit_selection
    [of "\<lparr>model = JStr '''', availableModels = fallback_SelectDataset, loadingModels = False\<rparr>"
        "''gemma2-9b-it''" "[Mount, Fetch_done Fetch_throws, Fetch_done Json_null]"
        fallback_SelectDataset]
  by (simp add: fallback_SelectDataset_def)

subsection \<open>The fallback list\<close>

text \<open>
  Claim C5 as stated, at the selector of \<^verbatim>\<open>ModelSelector.tsx\<close>: a response with status
  code 500 and no data leaves the model list empty, and the hardcoded list has no groq
  entry.
\<close>

theorem no_fallback_counterexample:
  "availableModels (fetchModels fallback_ModelSelector
      (Json_record \<lparr>status_code = Some 500, resp_data = None\<rparr>)
      \<lparr>model = JUndefined, availableModels = [], loadingModels = True\<rparr>) = [] \<and>
   filter (\<lambda>m. platform m = ''groq'') fallback_ModelSelector = []"
  by (simp add: fetchModels_def fallback_ModelSelector_def)

text \<open>
  Claim C5, amended. When the catalog load raises (the fetch fails, the body is not JSON, or
  the body is null) the component substitutes its hardcoded list and leaves the loading
  state; the list of either component has the openai model \<^verbatim>\<open>gpt-4o-mini\<close>, and the list
  of \<^verbatim>\<open>SelectDataset\<close> has a groq model as well.
\<close>

theorem fallback_when_load_raises:
  assumes "outcome = Fetch_throws \<or> outcome = Json_null"
    and "fb = fallback_ModelSelector \<or> fb = fallback_SelectDataset"
  shows "availableModels (fetchModels fb outcome st) = fb \<and>
         \<not> loadingModels (fetchModels fb outcome st) \<and>
         (\<exists>m \<in> set fb. platform m = ''openai'' \<and> name m = ''gpt-4o-mini'') \<and>
         (\<exists>m \<in> set fallback_SelectDataset. platform m = ''groq'')"
proof -
  have 1: "availableModels (fetchModels fb outcome st) = fb \<and>
         \<not> loadingModels (fetchModels fb outcome st)"
    using assms(1) by (auto simp: fetchModels_def)
  have 2: "\<exists>m \<in> set fb. platform m = ''openai'' \<and> name m = ''gpt-4o-mini''"
    using assms(2) by (auto simp: fallback_ModelSelector_def fallback_SelectDataset_def)
  have 3: "\<exists>m \<in> set fallback_SelectDataset. platform m = ''groq''"
    by (simp add: fallback_SelectDataset_def)
  show ?thesis using 1 2 3 by blast
qed

theorem fallback_when_load_raises_witness:
  "availableModels (fetchModels fallback_ModelSelector Json_null
      \<lparr>model = JUndefined, availableModels = [], loadingModels = True\<rparr>) = fallback_ModelSelector \<and>
   \<not> loadingModels (fetchModels fallback_ModelSelector Json_null
      \<lparr>model = JUndefined, availableModels = [], loadingModels = True\<rparr>)"
  using fallback_when_load_raises
    [of Json_null fallback_ModelSelector
        "\<lparr>model = JUndefined, availableModels = [], loadingModels = True\<rparr>"]
  by simp

end
